theory Spec2Isabelle
  imports Complex_Main
begin

section \<open>JavaScript values read and written by the playback hook\<close>

text \<open>
  The hook \<open>useAudioPlayer\<close> (src/hooks/useAudioPlayer.ts) keeps times, volume and speed
  in JavaScript numbers. A number is modelled as an exact real or \<open>NaN\<close>; rounding and the
  infinities are left out. Queue positions are JavaScript numbers that hold integers,
  modelled as \<open>int\<close>, so that the sentinel \<open>-1\<close> and a negative argument are values of
  the model.
\<close>

datatype number = NaN | Finite real

text \<open>Truthiness of a number, as in \<open>if (state.duration)\<close>: zero and \<open>NaN\<close> are falsy.\<close>

definition truthy :: "number \<Rightarrow> bool" where
  "truthy n = (case n of NaN \<Rightarrow> False | Finite r \<Rightarrow> r \<noteq> 0)"

fun Math_min :: "number \<Rightarrow> number \<Rightarrow> number" where
  "Math_min (Finite a) (Finite b) = Finite (min a b)"
| "Math_min _ _ = NaN"

fun Math_max :: "number \<Rightarrow> number \<Rightarrow> number" where
  "Math_max (Finite a) (Finite b) = Finite (max a b)"
| "Math_max _ _ = NaN"

fun js_add :: "number \<Rightarrow> number \<Rightarrow> number" where
  "js_add (Finite a) (Finite b) = Finite (a + b)"
| "js_add _ _ = NaN"

text \<open>\<open>xs.findIndex(P)\<close>: the first position whose element satisfies \<open>P\<close>, or \<open>-1\<close>.\<close>

fun findIndex_from :: "int \<Rightarrow> ('a \<Rightarrow> bool) \<Rightarrow> 'a list \<Rightarrow> int" where
  "findIndex_from i P [] = - 1"
| "findIndex_from i P (x # xs) = (if P x then i else findIndex_from (i + 1) P xs)"

definition findIndex :: "('a \<Rightarrow> bool) \<Rightarrow> 'a list \<Rightarrow> int" where
  "findIndex P xs = findIndex_from 0 P xs"

text \<open>\<open>xs.filter((_, i) => i !== index)\<close>: keeps the elements whose position differs from
  \<open>index\<close>.\<close>

fun filter_index_from :: "int \<Rightarrow> int \<Rightarrow> 'a list \<Rightarrow> 'a list" where
  "filter_index_from i index [] = []"
| "filter_index_from i index (x # xs) =
     (if i \<noteq> index then x # filter_index_from (i + 1) index xs
      else filter_index_from (i + 1) index xs)"

definition filter_index :: "int \<Rightarrow> 'a list \<Rightarrow> 'a list" where
  "filter_index index xs = filter_index_from 0 index xs"

text \<open>\<open>xs[i]\<close>: the element at position \<open>i\<close>, or \<open>undefined\<close> (here \<open>None\<close>) outside
  the array.\<close>

definition at_index :: "'a list \<Rightarrow> int \<Rightarrow> 'a option" where
  "at_index xs i = (if 0 \<le> i \<and> i < int (length xs) then Some (xs ! nat i) else None)"

text \<open>\<open>s.includes(t)\<close>: \<open>t\<close> occurs in \<open>s\<close> as a contiguous substring.\<close>

fun starts_with :: "string \<Rightarrow> string \<Rightarrow> bool" where
  "starts_with s [] = True"
| "starts_with [] (c # t) = False"
| "starts_with (d # s) (c # t) = (d = c \<and> starts_with s t)"

fun includes_str :: "string \<Rightarrow> string \<Rightarrow> bool" where
  "includes_str [] t = starts_with [] t"
| "includes_str (d # s) t = (starts_with (d # s) t \<or> includes_str s t)"

section \<open>Data model\<close>

text \<open>The interfaces \<open>Episode\<close> and \<open>AudioPlayerState\<close> of the types module. The field
  \<open>id\<close> is named \<open>id_ep\<close>; \<open>pubDate\<close> is a timestamp.\<close>

record Episode =
  id_ep :: string
  title :: string
  description :: string
  pubDate :: int
  audioUrl :: string
  podcastTitle :: "string option"
  podcastImageUrl :: "string option"

record AudioPlayerState =
  currentEpisode :: "Episode option"
  isPlaying :: bool
  playbackSpeed :: number
  volume :: number
  currentTime :: number
  duration :: number
  queue :: "Episode list"
  currentQueueIndex :: int

text \<open>The hook's options: whether a callback \<open>onTimeProgress\<close> was passed, and the saved
  positions \<open>episodeProgress\<close> (a \<open>Record<string, number>\<close>, here an association list read
  with \<open>map_of\<close>).\<close>

record UseAudioPlayerOptions =
  onTimeProgress :: bool
  episodeProgress :: "(string \<times> number) list"

text \<open>
  The media element behind \<open>audioRef\<close>, reduced to the properties the hook reads and
  writes, as the mock element of the hook's tests is. Assigning \<open>currentTime\<close> stores the
  value; clamping or validation done by a browser is not modelled. The one-shot listeners
  registered by \<open>playEpisode\<close> are kept with the values their closures captured.
\<close>

datatype listener =
  LoadedMetadataOnce Episode "(string \<times> number) list"
  | ErrorOnce

record HTMLAudioElement =
  src :: string
  audio_currentTime :: number
  audio_duration :: number
  readyState :: nat
  audio_volume :: number
  playbackRate :: number
  paused :: bool
  listeners :: "listener list"

text \<open>A pending \<open>setTimeout\<close>: its handle, the clock value at which it is due, and the
  arguments its callback passes to \<open>onTimeProgress\<close>.\<close>

record timeout =
  handle :: nat
  due :: nat
  for_episode :: string
  at_time :: number

text \<open>
  One mounted instance of the hook: the React state, the two refs, the platform's table
  of pending timeouts, and the calls made to \<open>onTimeProgress\<close> so far.
\<close>

record Player =
  state :: AudioPlayerState
  audioRef :: "HTMLAudioElement option"
  debouncedUpdateTimeRef :: "nat option"
  timeouts :: "timeout list"
  next_handle :: nat
  progress_calls :: "(string \<times> number) list"

definition initial_state :: AudioPlayerState where
  "initial_state =
     \<lparr>currentEpisode = None, isPlaying = False, playbackSpeed = Finite 1, volume = Finite 1,
      currentTime = Finite 0, duration = Finite 0, queue = [], currentQueueIndex = - 1\<rparr>"

definition initial_player :: "HTMLAudioElement option \<Rightarrow> Player" where
  "initial_player el =
     \<lparr>state = initial_state, audioRef = el, debouncedUpdateTimeRef = None, timeouts = [],
      next_handle = 0, progress_calls = []\<rparr>"

section \<open>State updaters passed to \<open>setState\<close>\<close>

definition playEpisode_update :: "Episode \<Rightarrow> AudioPlayerState \<Rightarrow> AudioPlayerState" where
  "playEpisode_update episode prev =
     (let episodeWithMeta = episode;
          existingQueueIndex = findIndex (\<lambda>q. id_ep q = id_ep episode) (queue prev)
      in if existingQueueIndex \<noteq> - 1
         then prev\<lparr>currentEpisode := Some episodeWithMeta,
                   currentQueueIndex := existingQueueIndex,
                   isPlaying := True\<rparr>
         else let newQueueIndex = int (length (queue prev))
              in prev\<lparr>currentEpisode := Some episodeWithMeta,
                      queue := queue prev @ [episodeWithMeta],
                      currentQueueIndex := newQueueIndex,
                      isPlaying := True\<rparr>)"

definition addToQueue_update :: "Episode \<Rightarrow> AudioPlayerState \<Rightarrow> AudioPlayerState" where
  "addToQueue_update episode prev = prev\<lparr>queue := queue prev @ [episode]\<rparr>"

definition removeFromQueue_update :: "int \<Rightarrow> AudioPlayerState \<Rightarrow> AudioPlayerState" where
  "removeFromQueue_update index prev =
     (let newQueue = filter_index index (queue prev);
          (newCurrentQueueIndex, newCurrentEpisode, newIsPlaying) =
            (if index < currentQueueIndex prev
             then (currentQueueIndex prev - 1, currentEpisode prev, isPlaying prev)
             else if index = currentQueueIndex prev
             then (- 1, None, False)
             else (currentQueueIndex prev, currentEpisode prev, isPlaying prev))
      in prev\<lparr>queue := newQueue,
              currentQueueIndex := newCurrentQueueIndex,
              currentEpisode := newCurrentEpisode,
              isPlaying := newIsPlaying\<rparr>)"

definition clearQueue_update :: "AudioPlayerState \<Rightarrow> AudioPlayerState" where
  "clearQueue_update prev =
     prev\<lparr>queue := [], currentQueueIndex := - 1, currentEpisode := None, isPlaying := False\<rparr>"

section \<open>The media element\<close>

text \<open>\<open>play()\<close> returns a promise that the platform resolves or rejects.\<close>

datatype play_result = Resolved | Rejected

definition load :: "HTMLAudioElement \<Rightarrow> HTMLAudioElement" where
  "load audio = audio\<lparr>readyState := 0\<rparr>"

definition pause :: "HTMLAudioElement \<Rightarrow> HTMLAudioElement" where
  "pause audio = audio\<lparr>paused := True\<rparr>"

definition play :: "play_result \<Rightarrow> HTMLAudioElement \<Rightarrow> HTMLAudioElement" where
  "play r audio = (case r of Resolved \<Rightarrow> audio\<lparr>paused := False\<rparr> | Rejected \<Rightarrow> audio)"

text \<open>The rebinding sequence of \<open>playEpisode\<close>: clear the source and load, assign the new
  source, register the two one-shot listeners, load.\<close>

definition rebind :: "UseAudioPlayerOptions \<Rightarrow> Episode \<Rightarrow> HTMLAudioElement \<Rightarrow> HTMLAudioElement" where
  "rebind opts episode audio =
     (let a1 = load (audio\<lparr>src := []\<rparr>);
          a2 = a1\<lparr>src := audioUrl episode\<rparr>;
          a3 = a2\<lparr>listeners := listeners a2 @ [LoadedMetadataOnce episode (episodeProgress opts), ErrorOnce]\<rparr>
      in load a3)"

section \<open>Control functions of the hook\<close>

text \<open>
  Each action is applied to a player whose rendered state is its latest state (one action
  per render). \<open>playNext\<close> and \<open>playPrevious\<close> read the rendered state and hand the entry
  to \<open>playEpisode\<close>; where the entry read is \<open>undefined\<close> the model stops with an error,
  since what the source does with it (a \<open>TypeError\<close> from \<open>episode.id\<close>, or an empty object
  stored in the queue) is not a value of \<open>Episode\<close>.
\<close>

datatype error = UndefinedEpisode

definition playEpisode :: "UseAudioPlayerOptions \<Rightarrow> Episode \<Rightarrow> Player \<Rightarrow> Player" where
  "playEpisode opts episode p =
     p\<lparr>state := playEpisode_update episode (state p),
       audioRef := (case audioRef p of None \<Rightarrow> None
                    | Some audio \<Rightarrow> Some (rebind opts episode audio))\<rparr>"

definition addToQueue :: "Episode \<Rightarrow> Player \<Rightarrow> Player" where
  "addToQueue episode p = p\<lparr>state := addToQueue_update episode (state p)\<rparr>"

definition removeFromQueue :: "int \<Rightarrow> Player \<Rightarrow> Player" where
  "removeFromQueue index p = p\<lparr>state := removeFromQueue_update index (state p)\<rparr>"

text \<open>\<open>playNext_from rendered\<close> is the callback created in the render that showed
  \<open>rendered\<close>: the guard and the entry come from \<open>rendered\<close>, the update is applied to the
  player as it is when the callback runs.\<close>

definition playNext_from :: "UseAudioPlayerOptions \<Rightarrow> AudioPlayerState \<Rightarrow> Player \<Rightarrow> error + Player" where
  "playNext_from opts rendered p =
     (if currentQueueIndex rendered < int (length (queue rendered)) - 1
      then (let nextIndex = currentQueueIndex rendered + 1
            in case at_index (queue rendered) nextIndex of
                 None \<Rightarrow> Inl UndefinedEpisode
               | Some nextEpisode \<Rightarrow> Inr (playEpisode opts nextEpisode p))
      else Inr p)"

definition playNext :: "UseAudioPlayerOptions \<Rightarrow> Player \<Rightarrow> error + Player" where
  "playNext opts p = playNext_from opts (state p) p"

definition playPrevious :: "UseAudioPlayerOptions \<Rightarrow> Player \<Rightarrow> error + Player" where
  "playPrevious opts p =
     (if currentQueueIndex (state p) > 0
      then (let prevIndex = currentQueueIndex (state p) - 1
            in case at_index (queue (state p)) prevIndex of
                 None \<Rightarrow> Inl UndefinedEpisode
               | Some prevEpisode \<Rightarrow> Inr (playEpisode opts prevEpisode p))
      else Inr p)"

definition togglePlayPause :: "Player \<Rightarrow> Player" where
  "togglePlayPause p = p\<lparr>state := (state p)\<lparr>isPlaying := \<not> isPlaying (state p)\<rparr>\<rparr>"

definition clearQueue :: "Player \<Rightarrow> Player" where
  "clearQueue p = p\<lparr>state := clearQueue_update (state p)\<rparr>"

definition seek :: "number \<Rightarrow> Player \<Rightarrow> Player" where
  "seek time p =
     (case audioRef p of
        None \<Rightarrow> p
      | Some audio \<Rightarrow>
          p\<lparr>audioRef := Some (audio\<lparr>audio_currentTime := time\<rparr>),
            state := (state p)\<lparr>currentTime := time\<rparr>\<rparr>)"

definition skipTime :: "number \<Rightarrow> Player \<Rightarrow> Player" where
  "skipTime amount p =
     (case audioRef p of
        None \<Rightarrow> p
      | Some audio \<Rightarrow>
          if truthy (duration (state p))
          then (let newTime = Math_max (Finite 0)
                                (Math_min (duration (state p)) (js_add (audio_currentTime audio) amount))
                in seek newTime p)
          else p)"


section \<open>Event handlers and effects of the hook\<close>

text \<open>The handler \<open>handleLoadedMetadata\<close> returned by the hook mirrors the element's
  duration into the state.\<close>

definition handleLoadedMetadata :: "Player \<Rightarrow> Player" where
  "handleLoadedMetadata p =
     (case audioRef p of
        None \<Rightarrow> p
      | Some audio \<Rightarrow> p\<lparr>state := (state p)\<lparr>duration := audio_duration audio\<rparr>\<rparr>)"

text \<open>The callback given to \<open>.catch\<close> after both calls of \<open>audio.play()\<close>. It runs when
  the platform rejects the request, on the state as it is then.\<close>

definition catch_rejection :: "Player \<Rightarrow> Player" where
  "catch_rejection p = p\<lparr>state := (state p)\<lparr>isPlaying := False\<rparr>\<rparr>"

text \<open>\<open>audio.play().catch(...)\<close>: the request and its settlement, taken in one step.\<close>

definition play_catch :: "play_result \<Rightarrow> Player \<Rightarrow> Player" where
  "play_catch r p =
     (case audioRef p of
        None \<Rightarrow> p
      | Some audio \<Rightarrow>
          (case r of
             Resolved \<Rightarrow> p\<lparr>audioRef := Some (play Resolved audio)\<rparr>
           | Rejected \<Rightarrow> catch_rejection (p\<lparr>audioRef := Some (play Rejected audio)\<rparr>)))"

text \<open>The one-shot \<open>loadedmetadata\<close> listener that \<open>playEpisode\<close> registers:
  \<open>episodeProgress[episode.id] || 0\<close> is the position to resume from.\<close>

definition savedTime :: "(string \<times> number) list \<Rightarrow> Episode \<Rightarrow> number" where
  "savedTime progress episode =
     (case map_of progress (id_ep episode) of
        None \<Rightarrow> Finite 0
      | Some t \<Rightarrow> if truthy t then t else Finite 0)"

definition loadedmetadata_once ::
  "play_result \<Rightarrow> Episode \<Rightarrow> (string \<times> number) list \<Rightarrow> Player \<Rightarrow> Player" where
  "loadedmetadata_once r episode progress p =
     (case audioRef p of
        None \<Rightarrow> p
      | Some audio \<Rightarrow>
          play_catch r (p\<lparr>audioRef := Some (audio\<lparr>audio_currentTime := savedTime progress episode\<rparr>)\<rparr>))"

text \<open>The one-shot \<open>error\<close> listener.\<close>

definition error_once :: "Player \<Rightarrow> Player" where
  "error_once p = p\<lparr>state := (state p)\<lparr>isPlaying := False\<rparr>\<rparr>"

fun is_error_listener :: "listener \<Rightarrow> bool" where
  "is_error_listener ErrorOnce = True"
| "is_error_listener (LoadedMetadataOnce e progress) = False"

fun run_loadedmetadata_listener :: "play_result \<Rightarrow> Player \<Rightarrow> listener \<Rightarrow> Player" where
  "run_loadedmetadata_listener r p (LoadedMetadataOnce e progress) = loadedmetadata_once r e progress p"
| "run_loadedmetadata_listener r p ErrorOnce = p"

text \<open>The element reports its metadata: the hook's handler runs, then every registered
  one-shot \<open>loadedmetadata\<close> listener runs once and is removed. The platform answers
  each play request of this event with \<open>r\<close>.\<close>

definition fire_loadedmetadata :: "play_result \<Rightarrow> Player \<Rightarrow> Player" where
  "fire_loadedmetadata r p =
     (case audioRef p of
        None \<Rightarrow> p
      | Some audio \<Rightarrow>
          (let ls = listeners audio;
               p0 = handleLoadedMetadata p;
               p1 = p0\<lparr>audioRef := Some (audio\<lparr>listeners := filter is_error_listener ls\<rparr>)\<rparr>
           in foldl (run_loadedmetadata_listener r) p1
                (filter (\<lambda>l. \<not> is_error_listener l) ls)))"

text \<open>The effect that runs when \<open>isPlaying\<close> or \<open>currentEpisode\<close> changed.\<close>

definition reconcile_effect :: "play_result \<Rightarrow> Player \<Rightarrow> Player" where
  "reconcile_effect r p =
     (case audioRef p of
        None \<Rightarrow> p
      | Some audio \<Rightarrow>
          (let source_ready =
                 (case currentEpisode (state p) of
                    None \<Rightarrow> False
                  | Some ep \<Rightarrow> includes_str (src audio) (audioUrl ep) \<and> 2 \<le> readyState audio)
           in if isPlaying (state p) \<and> currentEpisode (state p) \<noteq> None
              then (if source_ready then play_catch r p else p)
              else if \<not> isPlaying (state p) then p\<lparr>audioRef := Some (pause audio)\<rparr>
              else p))"

section \<open>Debounced progress reports\<close>

text \<open>
  The platform's timers: \<open>setTimeout\<close> enters a timeout due \<open>delay\<close> after the clock
  value \<open>now\<close> and returns its handle; \<open>clearTimeout\<close> removes the timeout with the given
  handle (\<open>undefined\<close>, here \<open>None\<close>, removes nothing). The callback of every timeout set
  by the hook is \<open>() => onTimeProgress(episodeId, time)\<close>.
\<close>

definition setTimeout :: "nat \<Rightarrow> nat \<Rightarrow> string \<Rightarrow> number \<Rightarrow> Player \<Rightarrow> nat \<times> Player" where
  "setTimeout now delay episodeId time p =
     (next_handle p,
      p\<lparr>timeouts := timeouts p @
           [\<lparr>handle = next_handle p, due = now + delay, for_episode = episodeId, at_time = time\<rparr>],
        next_handle := next_handle p + 1\<rparr>)"

definition clearTimeout :: "nat option \<Rightarrow> Player \<Rightarrow> Player" where
  "clearTimeout h p =
     (case h of
        None \<Rightarrow> p
      | Some k \<Rightarrow> p\<lparr>timeouts := filter (\<lambda>t. handle t \<noteq> k) (timeouts p)\<rparr>)"

definition updateTimeProgress ::
  "UseAudioPlayerOptions \<Rightarrow> nat \<Rightarrow> string \<Rightarrow> number \<Rightarrow> Player \<Rightarrow> Player" where
  "updateTimeProgress opts now episodeId time p =
     (if episodeId = [] \<or> \<not> onTimeProgress opts then p
      else (let p1 = clearTimeout (debouncedUpdateTimeRef p) p;
                (h, p2) = setTimeout now 2000 episodeId time p1
            in p2\<lparr>debouncedUpdateTimeRef := Some h\<rparr>))"

definition handleTimeUpdate :: "UseAudioPlayerOptions \<Rightarrow> nat \<Rightarrow> Player \<Rightarrow> Player" where
  "handleTimeUpdate opts now p =
     (case audioRef p of
        None \<Rightarrow> p
      | Some audio \<Rightarrow>
          (case currentEpisode (state p) of
             None \<Rightarrow> p
           | Some ep \<Rightarrow>
               (let time = audio_currentTime audio;
                    p1 = p\<lparr>state := (state p)\<lparr>currentTime := time\<rparr>\<rparr>
                in updateTimeProgress opts now (id_ep ep) time p1)))"

text \<open>
  The platform runs the timeouts whose delay has elapsed at clock value \<open>now\<close>, in the
  order they were set; each calls \<open>onTimeProgress\<close>, recorded in \<open>progress_calls\<close>. A
  timeout never runs before it is due; how long after is up to the platform, which is
  why running the timers is an event of its own.
\<close>

definition run_timeouts :: "nat \<Rightarrow> Player \<Rightarrow> Player" where
  "run_timeouts now p =
     p\<lparr>progress_calls := progress_calls p @
          map (\<lambda>t. (for_episode t, at_time t)) (filter (\<lambda>t. due t \<le> now) (timeouts p)),
       timeouts := filter (\<lambda>t. \<not> due t \<le> now) (timeouts p)\<rparr>"

text \<open>The events of a playback session that matter to the debounce: the element reports
  a new position and fires \<open>timeupdate\<close>, or the platform runs its expired timers. Each
  event carries the clock value (in milliseconds) at which it is handled.\<close>

datatype event = TimeUpdate number | TimersRun

fun dispatch :: "UseAudioPlayerOptions \<Rightarrow> Player \<Rightarrow> nat \<times> event \<Rightarrow> Player" where
  "dispatch opts p (now, TimeUpdate v) =
     handleTimeUpdate opts now
       (p\<lparr>audioRef := (case audioRef p of None \<Rightarrow> None
                        | Some audio \<Rightarrow> Some (audio\<lparr>audio_currentTime := v\<rparr>))\<rparr>)"
| "dispatch opts p (now, TimersRun) = run_timeouts now p"

definition run_events :: "UseAudioPlayerOptions \<Rightarrow> Player \<Rightarrow> (nat \<times> event) list \<Rightarrow> Player" where
  "run_events opts p evs = foldl (dispatch opts) p evs"

section \<open>Sequences of engine operations\<close>

datatype action =
  PlayEpisode Episode
  | AddToQueue Episode
  | RemoveFromQueue int
  | PlayNext
  | PlayPrevious
  | TogglePlayPause
  | ClearQueue

fun perform :: "UseAudioPlayerOptions \<Rightarrow> action \<Rightarrow> Player \<Rightarrow> error + Player" where
  "perform opts (PlayEpisode e) p = Inr (playEpisode opts e p)"
| "perform opts (AddToQueue e) p = Inr (addToQueue e p)"
| "perform opts (RemoveFromQueue i) p = Inr (removeFromQueue i p)"
| "perform opts PlayNext p = playNext opts p"
| "perform opts PlayPrevious p = playPrevious opts p"
| "perform opts TogglePlayPause p = Inr (togglePlayPause p)"
| "perform opts ClearQueue p = Inr (clearQueue p)"

fun perform_all :: "UseAudioPlayerOptions \<Rightarrow> action list \<Rightarrow> Player \<Rightarrow> error + Player" where
  "perform_all opts [] p = Inr p"
| "perform_all opts (a # as) p =
     (case perform opts a p of Inl e \<Rightarrow> Inl e | Inr p' \<Rightarrow> perform_all opts as p')"

text \<open>The queue invariant of the data model: a current episode sits in the queue slot
  the pointer names, under the same id; an empty queue has no current episode and the
  pointer \<open>-1\<close>.\<close>

definition queue_invariant :: "AudioPlayerState \<Rightarrow> bool" where
  "queue_invariant s =
     ((case currentEpisode s of
         None \<Rightarrow> True
       | Some e \<Rightarrow>
           (case at_index (queue s) (currentQueueIndex s) of
              None \<Rightarrow> False
            | Some q \<Rightarrow> id_ep q = id_ep e))
      \<and> (if queue s = [] then currentEpisode s = None \<and> currentQueueIndex s = - 1 else True))"

text \<open>\<open>skipTime\<close> in the words of the specification, to be compared with the code: the
  target is the position moved by \<open>delta\<close> and clamped to \<open>[0, duration]\<close>; when the
  duration is unknown (0 or \<open>NaN\<close>) only the lower bound 0 is enforced.\<close>

definition skipTime_spec :: "number \<Rightarrow> number \<Rightarrow> number \<Rightarrow> number" where
  "skipTime_spec time delta dur =
     (if truthy dur then Math_max (Finite 0) (Math_min dur (js_add time delta))
      else Math_max (Finite 0) (js_add time delta))"

section \<open>Predicates used in the proofs, and example data\<close>

text \<open>The pointer names the slot of the current episode, or is \<open>-1\<close> when there is
  none: the form of the queue invariant that every operation preserves.\<close>

definition pointer_ok :: "AudioPlayerState \<Rightarrow> bool" where
  "pointer_ok s =
     (case currentEpisode s of
        None \<Rightarrow> currentQueueIndex s = - 1
      | Some e \<Rightarrow>
          0 \<le> currentQueueIndex s \<and> currentQueueIndex s < int (length (queue s))
          \<and> id_ep (queue s ! nat (currentQueueIndex s)) = id_ep e)"

text \<open>An operation whose argument is a position of an array: \<open>removeFromQueue\<close> with a
  negative index is the one operation left out.\<close>

fun nonnegative_index :: "action \<Rightarrow> bool" where
  "nonnegative_index (RemoveFromQueue i) = (0 \<le> i)"
| "nonnegative_index a = True"

text \<open>While ticks arrive for one episode on a bound element, at most one timeout is
  pending, and it is the one the ref holds.\<close>

definition debounce_invariant :: "UseAudioPlayerOptions \<Rightarrow> Episode \<Rightarrow> Player \<Rightarrow> bool" where
  "debounce_invariant opts ep p =
     (audioRef p \<noteq> None \<and> currentEpisode (state p) = Some ep
      \<and> (case timeouts p of
            [] \<Rightarrow> True
          | [t] \<Rightarrow> debouncedUpdateTimeRef p = Some (handle t) \<and> onTimeProgress opts \<and> id_ep ep \<noteq> []
          | _ \<Rightarrow> False))"

definition episode_a :: Episode where
  "episode_a = \<lparr>id_ep = ''a'', title = ''A'', description = [], pubDate = 0,
                audioUrl = ''a.mp3'', podcastTitle = None, podcastImageUrl = None\<rparr>"

definition episode_b :: Episode where
  "episode_b = \<lparr>id_ep = ''b'', title = ''B'', description = [], pubDate = 0,
                audioUrl = ''b.mp3'', podcastTitle = None, podcastImageUrl = None\<rparr>"

definition episode_c :: Episode where
  "episode_c = \<lparr>id_ep = ''c'', title = ''C'', description = [], pubDate = 0,
                audioUrl = ''c.mp3'', podcastTitle = None, podcastImageUrl = None\<rparr>"

definition episode_a_retitled :: Episode where
  "episode_a_retitled = episode_a\<lparr>title := ''A2''\<rparr>"

definition example_options :: UseAudioPlayerOptions where
  "example_options = \<lparr>onTimeProgress = True, episodeProgress = []\<rparr>"

definition example_element :: HTMLAudioElement where
  "example_element =
     \<lparr>src = [], audio_currentTime = Finite 0, audio_duration = Finite 180, readyState = 0,
      audio_volume = Finite 1, playbackRate = Finite 1, paused = True, listeners = []\<rparr>"

text \<open>The queue \<open>[a, b, c]\<close> built with \<open>addToQueue\<close>, then \<open>playEpisode e\<close>.\<close>

definition queued_player :: "Episode \<Rightarrow> Player" where
  "queued_player e =
     playEpisode example_options e
       (addToQueue episode_c (addToQueue episode_b (addToQueue episode_a (initial_player None))))"

text \<open>A bound element whose source is the audio of \<open>a\<close> and that has buffered enough to
  play, with \<open>a\<close> the current episode and \<open>isPlaying\<close> set.\<close>

definition ready_player :: Player where
  "ready_player =
     (playEpisode example_options episode_a (initial_player None))
       \<lparr>audioRef := Some (example_element\<lparr>src := audioUrl episode_a, readyState := 4\<rparr>)\<rparr>"




section \<open>Facts about the array helpers\<close>

lemma findIndex_from_none:
  "0 \<le> i \<Longrightarrow> (findIndex_from i P xs = - 1) = (\<forall>x \<in> set xs. \<not> P x)"
proof (induction xs arbitrary: i)
  case Nil
  then show ?case by simp
next
  case (Cons x xs)
  from Cons.prems have "0 \<le> i + 1" by simp
  from Cons.IH [OF this] Cons.prems show ?case by auto
qed

lemma findIndex_none: "(findIndex P xs = - 1) = (\<forall>x \<in> set xs. \<not> P x)"
  using findIndex_from_none [of 0 P xs] by (simp add: findIndex_def)

lemma findIndex_from_found:
  "\<exists>x \<in> set xs. P x \<Longrightarrow>
   \<exists>k < length xs. findIndex_from i P xs = i + int k \<and> P (xs ! k) \<and> (\<forall>j < k. \<not> P (xs ! j))"
proof (induction xs arbitrary: i)
  case Nil
  then show ?case by simp
next
  case (Cons x xs)
  show ?case
  proof (cases "P x")
    case True
    then have "findIndex_from i P (x # xs) = i + int 0 \<and> P ((x # xs) ! 0)
               \<and> (\<forall>j < 0. \<not> P ((x # xs) ! j))"
      by simp
    then show ?thesis by blast
  next
    case False
    with Cons.prems have "\<exists>y \<in> set xs. P y" by auto
    from Cons.IH [OF this, of "i + 1"] obtain k where k: "k < length xs"
      "findIndex_from (i + 1) P xs = i + 1 + int k" "P (xs ! k)" "\<forall>j < k. \<not> P (xs ! j)"
      by blast
    have "\<forall>j < Suc k. \<not> P ((x # xs) ! j)"
      using False k(4) by (auto simp: nth_Cons split: nat.splits)
    with False k have "Suc k < length (x # xs) \<and> findIndex_from i P (x # xs) = i + int (Suc k)
        \<and> P ((x # xs) ! Suc k) \<and> (\<forall>j < Suc k. \<not> P ((x # xs) ! j))"
      by simp
    then show ?thesis by blast
  qed
qed

lemma findIndex_found:
  assumes "\<exists>x \<in> set xs. P x"
  shows "\<exists>k < length xs. findIndex P xs = int k \<and> P (xs ! k) \<and> (\<forall>j < k. \<not> P (xs ! j))"
  using findIndex_from_found [OF assms, of 0] by (simp add: findIndex_def)

lemma filter_index_from_outside:
  "index < i \<or> i + int (length xs) \<le> index \<Longrightarrow> filter_index_from i index xs = xs"
  by (induction xs arbitrary: i) auto

lemma filter_index_outside:
  "index < 0 \<or> int (length xs) \<le> index \<Longrightarrow> filter_index index xs = xs"
  using filter_index_from_outside [of index 0 xs] by (simp add: filter_index_def)

lemma filter_index_from_inside:
  "k < length xs \<Longrightarrow> filter_index_from i (i + int k) xs = take k xs @ drop (Suc k) xs"
proof (induction xs arbitrary: i k)
  case Nil
  then show ?case by simp
next
  case (Cons x xs)
  show ?case
  proof (cases k)
    case 0
    then show ?thesis by (simp add: filter_index_from_outside)
  next
    case (Suc m)
    with Cons.prems have m: "m < length xs" by simp
    have "filter_index_from (i + 1) (i + 1 + int m) xs = take m xs @ drop (Suc m) xs"
      by (rule Cons.IH [OF m])
    moreover have "i + 1 + int m = i + int k" using Suc by simp
    ultimately show ?thesis using Suc by simp
  qed
qed

lemma filter_index_inside:
  "k < length xs \<Longrightarrow> filter_index (int k) xs = take k xs @ drop (Suc k) xs"
  using filter_index_from_inside [of k xs 0] by (simp add: filter_index_def)

lemma nth_remove_before:
  "k < j \<Longrightarrow> j < length xs \<Longrightarrow> (take k xs @ drop (Suc k) xs) ! (j - 1) = xs ! j"
  by (auto simp: nth_append min_def)

lemma nth_remove_after:
  "j < k \<Longrightarrow> j < length xs \<Longrightarrow> (take k xs @ drop (Suc k) xs) ! j = xs ! j"
  by (auto simp: nth_append min_def)

section \<open>The state after each control function\<close>

lemma state_playEpisode: "state (playEpisode opts e p) = playEpisode_update e (state p)"
  by (simp add: playEpisode_def)

lemma state_removeFromQueue: "state (removeFromQueue i p) = removeFromQueue_update i (state p)"
  by (simp add: removeFromQueue_def)

lemma playEpisode_update_present:
  assumes "\<exists>q \<in> set (queue s). id_ep q = id_ep e"
  shows "\<exists>k < length (queue s).
           playEpisode_update e s =
             s\<lparr>currentEpisode := Some e, currentQueueIndex := int k, isPlaying := True\<rparr>
           \<and> id_ep (queue s ! k) = id_ep e \<and> (\<forall>j < k. id_ep (queue s ! j) \<noteq> id_ep e)"
proof -
  from findIndex_found [of "queue s" "\<lambda>q. id_ep q = id_ep e", OF assms]
  obtain k where k: "k < length (queue s)"
    "findIndex (\<lambda>q. id_ep q = id_ep e) (queue s) = int k"
    "id_ep (queue s ! k) = id_ep e" "\<forall>j < k. id_ep (queue s ! j) \<noteq> id_ep e"
    by blast
  from k(2) have "playEpisode_update e s =
      s\<lparr>currentEpisode := Some e, currentQueueIndex := int k, isPlaying := True\<rparr>"
    by (simp add: playEpisode_update_def Let_def)
  with k show ?thesis by blast
qed

lemma playEpisode_update_absent:
  assumes "\<not> (\<exists>q \<in> set (queue s). id_ep q = id_ep e)"
  shows "playEpisode_update e s =
           s\<lparr>currentEpisode := Some e, queue := queue s @ [e],
             currentQueueIndex := int (length (queue s)), isPlaying := True\<rparr>"
proof -
  from assms have "findIndex (\<lambda>q. id_ep q = id_ep e) (queue s) = - 1"
    by (simp add: findIndex_none)
  then show ?thesis by (simp add: playEpisode_update_def Let_def)
qed

lemma queued_player_queue:
  "queue (state (queued_player episode_a)) = [episode_a, episode_b, episode_c]"
  "queue (state (queued_player episode_b)) = [episode_a, episode_b, episode_c]"
  "queue (state (queued_player episode_c)) = [episode_a, episode_b, episode_c]"
  by (simp_all add: queued_player_def state_playEpisode playEpisode_update_def addToQueue_def
      addToQueue_update_def initial_player_def initial_state_def findIndex_def Let_def
      episode_a_def episode_b_def episode_c_def)

lemma queued_player_current:
  "currentEpisode (state (queued_player e)) = Some e"
  "isPlaying (state (queued_player e))"
  by (simp_all add: queued_player_def state_playEpisode playEpisode_update_def Let_def)

lemma queued_player_index:
  "currentQueueIndex (state (queued_player episode_a)) = 0"
  "currentQueueIndex (state (queued_player episode_b)) = 1"
  "currentQueueIndex (state (queued_player episode_c)) = 2"
  by (simp_all add: queued_player_def state_playEpisode playEpisode_update_def addToQueue_def
      addToQueue_update_def initial_player_def initial_state_def findIndex_def Let_def
      episode_a_def episode_b_def episode_c_def)

section \<open>playEpisode\<close>

text \<open>
  C4. \<open>playEpisode e\<close> deduplicates by id. If some queue entry has the id of \<open>e\<close>, the queue
  keeps its length, \<open>currentQueueIndex\<close> becomes the position of the first entry with
  that id, and \<open>isPlaying\<close> is true. Otherwise \<open>e\<close> is appended at the end,
  \<open>currentQueueIndex\<close> becomes the new last position, and \<open>isPlaying\<close> is true.
\<close>

theorem playEpisode_deduplicates:
  "((\<exists>q \<in> set (queue (state p)). id_ep q = id_ep e) \<longrightarrow>
      length (queue (state (playEpisode opts e p))) = length (queue (state p))
      \<and> (\<exists>k < length (queue (state p)).
            currentQueueIndex (state (playEpisode opts e p)) = int k
            \<and> id_ep (queue (state p) ! k) = id_ep e
            \<and> (\<forall>j < k. id_ep (queue (state p) ! j) \<noteq> id_ep e))
      \<and> isPlaying (state (playEpisode opts e p)))
   \<and> (\<not> (\<exists>q \<in> set (queue (state p)). id_ep q = id_ep e) \<longrightarrow>
      queue (state (playEpisode opts e p)) = queue (state p) @ [e]
      \<and> currentQueueIndex (state (playEpisode opts e p)) = int (length (queue (state p)))
      \<and> isPlaying (state (playEpisode opts e p)))"
proof (intro conjI impI)
  assume "\<exists>q \<in> set (queue (state p)). id_ep q = id_ep e"
  from playEpisode_update_present [OF this] obtain k where k: "k < length (queue (state p))"
    "playEpisode_update e (state p) =
       (state p)\<lparr>currentEpisode := Some e, currentQueueIndex := int k, isPlaying := True\<rparr>"
    "id_ep (queue (state p) ! k) = id_ep e" "\<forall>j < k. id_ep (queue (state p) ! j) \<noteq> id_ep e"
    by blast
  show "length (queue (state (playEpisode opts e p))) = length (queue (state p))"
    by (simp add: state_playEpisode k(2))
  show "isPlaying (state (playEpisode opts e p))"
    by (simp add: state_playEpisode k(2))
  have "currentQueueIndex (state (playEpisode opts e p)) = int k"
    by (simp add: state_playEpisode k(2))
  with k(1,3,4) show "\<exists>k < length (queue (state p)).
            currentQueueIndex (state (playEpisode opts e p)) = int k
            \<and> id_ep (queue (state p) ! k) = id_ep e
            \<and> (\<forall>j < k. id_ep (queue (state p) ! j) \<noteq> id_ep e)"
    by blast
next
  assume "\<not> (\<exists>q \<in> set (queue (state p)). id_ep q = id_ep e)"
  note upd = playEpisode_update_absent [OF this]
  show "queue (state (playEpisode opts e p)) = queue (state p) @ [e]"
    by (simp add: state_playEpisode upd)
  show "currentQueueIndex (state (playEpisode opts e p)) = int (length (queue (state p)))"
    by (simp add: state_playEpisode upd)
  show "isPlaying (state (playEpisode opts e p))"
    by (simp add: state_playEpisode upd)
qed

text \<open>Playing \<open>a\<close> on the empty queue appends it; playing it again reuses position 0.\<close>

theorem playEpisode_deduplicates_witness:
  "queue (state (playEpisode example_options episode_a (initial_player None))) = [episode_a]
   \<and> currentQueueIndex (state (playEpisode example_options episode_a (initial_player None))) = 0
   \<and> length (queue (state (playEpisode example_options episode_a
        (playEpisode example_options episode_a (initial_player None))))) = 1
   \<and> currentQueueIndex (state (playEpisode example_options episode_a
        (playEpisode example_options episode_a (initial_player None)))) = 0"
proof -
  let ?p0 = "initial_player None"
  let ?p1 = "playEpisode example_options episode_a ?p0"
  have empty: "queue (state ?p0) = []" by (simp add: initial_player_def initial_state_def)
  then have "\<not> (\<exists>q \<in> set (queue (state ?p0)). id_ep q = id_ep episode_a)" by simp
  with playEpisode_deduplicates [of ?p0 episode_a example_options] empty
  have first: "queue (state ?p1) = [episode_a]" "currentQueueIndex (state ?p1) = 0"
    by simp_all
  then have "\<exists>q \<in> set (queue (state ?p1)). id_ep q = id_ep episode_a" by simp
  with playEpisode_deduplicates [of ?p1 episode_a example_options] first(1)
  have "length (queue (state (playEpisode example_options episode_a ?p1))) = 1
      \<and> currentQueueIndex (state (playEpisode example_options episode_a ?p1)) = 0"
    by auto
  with first show ?thesis by simp
qed

text \<open>
  C10. When the id of \<open>e\<close> is already in the queue, \<open>playEpisode e\<close> leaves the queue as it
  is (the stored entry is not replaced) and makes \<open>e\<close> itself the current episode, so the
  current episode and the slot under the pointer agree on the id; they need not agree
  on the other fields: there is a call after which the titles differ.
\<close>

theorem playEpisode_existing_keeps_queue:
  "((\<exists>q \<in> set (queue (state p)). id_ep q = id_ep e) \<longrightarrow>
      queue (state (playEpisode opts e p)) = queue (state p)
      \<and> currentEpisode (state (playEpisode opts e p)) = Some e
      \<and> (\<exists>q. at_index (queue (state (playEpisode opts e p)))
                 (currentQueueIndex (state (playEpisode opts e p))) = Some q
              \<and> id_ep q = id_ep e))
   \<and> (\<exists>p0 e0. (\<exists>q \<in> set (queue (state p0)). id_ep q = id_ep e0)
         \<and> (\<exists>q. at_index (queue (state (playEpisode opts e0 p0)))
                 (currentQueueIndex (state (playEpisode opts e0 p0))) = Some q
              \<and> title q \<noteq> title e0))"
proof (intro conjI impI)
  assume "\<exists>q \<in> set (queue (state p)). id_ep q = id_ep e"
  from playEpisode_update_present [OF this] obtain k where k: "k < length (queue (state p))"
    "playEpisode_update e (state p) =
       (state p)\<lparr>currentEpisode := Some e, currentQueueIndex := int k, isPlaying := True\<rparr>"
    "id_ep (queue (state p) ! k) = id_ep e"
    by blast
  show "queue (state (playEpisode opts e p)) = queue (state p)"
    by (simp add: state_playEpisode k(2))
  show "currentEpisode (state (playEpisode opts e p)) = Some e"
    by (simp add: state_playEpisode k(2))
  show "\<exists>q. at_index (queue (state (playEpisode opts e p)))
                 (currentQueueIndex (state (playEpisode opts e p))) = Some q
              \<and> id_ep q = id_ep e"
    using k by (simp add: state_playEpisode at_index_def)
next
  let ?p0 = "addToQueue episode_a (initial_player None)"
  have "(\<exists>q \<in> set (queue (state ?p0)). id_ep q = id_ep episode_a_retitled)
      \<and> (\<exists>q. at_index (queue (state (playEpisode opts episode_a_retitled ?p0)))
                 (currentQueueIndex (state (playEpisode opts episode_a_retitled ?p0))) = Some q
              \<and> title q \<noteq> title episode_a_retitled)"
    by (simp add: addToQueue_def addToQueue_update_def initial_player_def initial_state_def
        state_playEpisode playEpisode_update_def findIndex_def at_index_def
        episode_a_def episode_a_retitled_def)
  then show "\<exists>p0 e0. (\<exists>q \<in> set (queue (state p0)). id_ep q = id_ep e0)
         \<and> (\<exists>q. at_index (queue (state (playEpisode opts e0 p0)))
                 (currentQueueIndex (state (playEpisode opts e0 p0))) = Some q
              \<and> title q \<noteq> title e0)"
    by blast
qed

text \<open>With \<open>a\<close> queued, playing a retitled copy of \<open>a\<close> leaves the stored entry in the
  queue and makes the copy the current episode.\<close>

theorem playEpisode_existing_keeps_queue_witness:
  "queue (state (playEpisode example_options episode_a_retitled
      (addToQueue episode_a (initial_player None)))) = [episode_a]
   \<and> currentEpisode (state (playEpisode example_options episode_a_retitled
      (addToQueue episode_a (initial_player None)))) = Some episode_a_retitled"
proof -
  let ?p0 = "addToQueue episode_a (initial_player None)"
  have q: "queue (state ?p0) = [episode_a]"
    by (simp add: addToQueue_def addToQueue_update_def initial_player_def initial_state_def)
  then have "\<exists>q \<in> set (queue (state ?p0)). id_ep q = id_ep episode_a_retitled"
    by (simp add: episode_a_def episode_a_retitled_def)
  with playEpisode_existing_keeps_queue [of ?p0 episode_a_retitled example_options] q
  show ?thesis by simp
qed

section \<open>removeFromQueue\<close>

text \<open>
  C5. \<open>removeFromQueue i\<close> for a position \<open>i\<close> of the queue removes the entry at \<open>i\<close>. If
  \<open>i\<close> is below \<open>currentQueueIndex\<close>, the pointer decreases by exactly 1 and
  \<open>currentEpisode\<close> and \<open>isPlaying\<close> are unchanged; if \<open>i\<close> is \<open>currentQueueIndex\<close>, the
  result has no current episode, \<open>isPlaying = false\<close> and the pointer \<open>-1\<close>, whatever the
  queue held; if \<open>i\<close> is above \<open>currentQueueIndex\<close>, the pointer, \<open>currentEpisode\<close> and
  \<open>isPlaying\<close> are unchanged.
\<close>

theorem removeFromQueue_in_range:
  assumes "0 \<le> i" and "i < int (length (queue (state p)))"
  shows "queue (state (removeFromQueue i p)) =
           take (nat i) (queue (state p)) @ drop (Suc (nat i)) (queue (state p))
    \<and> (i < currentQueueIndex (state p) \<longrightarrow>
          currentQueueIndex (state (removeFromQueue i p)) = currentQueueIndex (state p) - 1
          \<and> currentEpisode (state (removeFromQueue i p)) = currentEpisode (state p)
          \<and> isPlaying (state (removeFromQueue i p)) = isPlaying (state p))
    \<and> (i = currentQueueIndex (state p) \<longrightarrow>
          currentEpisode (state (removeFromQueue i p)) = None
          \<and> isPlaying (state (removeFromQueue i p)) = False
          \<and> currentQueueIndex (state (removeFromQueue i p)) = - 1)
    \<and> (currentQueueIndex (state p) < i \<longrightarrow>
          currentQueueIndex (state (removeFromQueue i p)) = currentQueueIndex (state p)
          \<and> currentEpisode (state (removeFromQueue i p)) = currentEpisode (state p)
          \<and> isPlaying (state (removeFromQueue i p)) = isPlaying (state p))"
proof -
  from assms have "nat i < length (queue (state p))" by simp
  from filter_index_inside [OF this] assms(1)
  have "filter_index i (queue (state p)) =
          take (nat i) (queue (state p)) @ drop (Suc (nat i)) (queue (state p))"
    by simp
  then show ?thesis
    by (simp add: state_removeFromQueue removeFromQueue_update_def Let_def)
qed

text \<open>On the queue \<open>[a, b, c]\<close>: removing position 0 while \<open>c\<close> plays, removing position 2
  while \<open>c\<close> plays, and removing position 1 while \<open>a\<close> plays.\<close>

theorem removeFromQueue_in_range_witness:
  "queue (state (removeFromQueue 0 (queued_player episode_c))) = [episode_b, episode_c]
   \<and> currentQueueIndex (state (removeFromQueue 0 (queued_player episode_c))) = 1
   \<and> currentEpisode (state (removeFromQueue 0 (queued_player episode_c))) = Some episode_c
   \<and> currentEpisode (state (removeFromQueue 2 (queued_player episode_c))) = None
   \<and> currentQueueIndex (state (removeFromQueue 2 (queued_player episode_c))) = - 1
   \<and> isPlaying (state (removeFromQueue 2 (queued_player episode_c))) = False
   \<and> queue (state (removeFromQueue 1 (queued_player episode_a))) = [episode_a, episode_c]
   \<and> currentQueueIndex (state (removeFromQueue 1 (queued_player episode_a))) = 0
   \<and> currentEpisode (state (removeFromQueue 1 (queued_player episode_a))) = Some episode_a"
proof -
  have qc: "queue (state (queued_player episode_c)) = [episode_a, episode_b, episode_c]"
    and qa: "queue (state (queued_player episode_a)) = [episode_a, episode_b, episode_c]"
    by (simp_all add: queued_player_queue)
  have "(0::int) \<le> 0" "0 < int (length (queue (state (queued_player episode_c))))"
    by (simp_all add: qc)
  from removeFromQueue_in_range [OF this]
  have r0: "queue (state (removeFromQueue 0 (queued_player episode_c))) = [episode_b, episode_c]
      \<and> currentQueueIndex (state (removeFromQueue 0 (queued_player episode_c))) = 1
      \<and> currentEpisode (state (removeFromQueue 0 (queued_player episode_c))) = Some episode_c"
    by (simp add: qc queued_player_index queued_player_current)
  have "(0::int) \<le> 2" "2 < int (length (queue (state (queued_player episode_c))))"
    by (simp_all add: qc)
  from removeFromQueue_in_range [OF this]
  have r2: "currentEpisode (state (removeFromQueue 2 (queued_player episode_c))) = None
      \<and> currentQueueIndex (state (removeFromQueue 2 (queued_player episode_c))) = - 1
      \<and> isPlaying (state (removeFromQueue 2 (queued_player episode_c))) = False"
    by (simp add: queued_player_index)
  have "(0::int) \<le> 1" "1 < int (length (queue (state (queued_player episode_a))))"
    by (simp_all add: qa)
  from removeFromQueue_in_range [OF this]
  have r1: "queue (state (removeFromQueue 1 (queued_player episode_a))) = [episode_a, episode_c]
      \<and> currentQueueIndex (state (removeFromQueue 1 (queued_player episode_a))) = 0
      \<and> currentEpisode (state (removeFromQueue 1 (queued_player episode_a))) = Some episode_a"
    by (simp add: qa queued_player_index queued_player_current)
  from r0 r2 r1 show ?thesis by simp
qed

text \<open>Beyond the end of the queue \<open>removeFromQueue\<close> changes nothing, as long as the
  pointer is below the index (as it is whenever the pointer is inside the queue or \<open>-1\<close>);
  with a negative index the queue at least is left as it was.\<close>

lemma removeFromQueue_beyond_end:
  assumes "int (length (queue (state p))) \<le> i" and "currentQueueIndex (state p) < i"
  shows "removeFromQueue i p = p"
proof -
  from assms(1) have "filter_index i (queue (state p)) = queue (state p)"
    by (simp add: filter_index_outside)
  with assms(2) show ?thesis
    by (simp add: removeFromQueue_def removeFromQueue_update_def Let_def)
qed

lemma removeFromQueue_negative_queue:
  "i < 0 \<Longrightarrow> queue (state (removeFromQueue i p)) = queue (state p)"
  by (simp add: state_removeFromQueue removeFromQueue_update_def Let_def filter_index_outside)

text \<open>
  C2. \<open>removeFromQueue index\<close> with an index outside the queue is to be a no-op that leaves
  \<open>queue\<close>, \<open>currentQueueIndex\<close>, \<open>currentEpisode\<close> and \<open>isPlaying\<close> unchanged. The code
  compares the index with the pointer without checking its range. After
  \<open>playEpisode a\<close> on the initial state the pointer is 0; \<open>removeFromQueue (-1)\<close> then
  takes the branch for an earlier entry and moves the pointer to \<open>-1\<close> while the current
  episode stays. After \<open>togglePlayPause\<close> on the initial state the pointer is the sentinel
  \<open>-1\<close>; \<open>removeFromQueue (-1)\<close> then takes the branch for the current entry and clears
  \<open>isPlaying\<close>.
\<close>

theorem removeFromQueue_negative_index_changes_state:
  "currentQueueIndex (state (playEpisode example_options episode_a (initial_player None))) = 0
   \<and> currentQueueIndex (state (removeFromQueue (- 1)
        (playEpisode example_options episode_a (initial_player None)))) = - 1
   \<and> currentEpisode (state (removeFromQueue (- 1)
        (playEpisode example_options episode_a (initial_player None)))) = Some episode_a
   \<and> queue (state (removeFromQueue (- 1)
        (playEpisode example_options episode_a (initial_player None)))) = [episode_a]
   \<and> isPlaying (state (togglePlayPause (initial_player None))) = True
   \<and> isPlaying (state (removeFromQueue (- 1) (togglePlayPause (initial_player None)))) = False"
  by (simp add: state_playEpisode state_removeFromQueue playEpisode_update_def
      removeFromQueue_update_def togglePlayPause_def initial_player_def initial_state_def
      findIndex_def filter_index_def Let_def)

section \<open>playNext, playPrevious and handleEnded\<close>








section \<open>The queue invariant\<close>

lemma pointer_ok_invariant: "pointer_ok s \<Longrightarrow> queue_invariant s"
  by (auto simp: pointer_ok_def queue_invariant_def at_index_def split: option.splits)

lemma pointer_ok_initial: "pointer_ok initial_state"
  by (simp add: pointer_ok_def initial_state_def)

lemma pointer_ok_playEpisode: "pointer_ok (playEpisode_update e s)"
proof (cases "\<exists>q \<in> set (queue s). id_ep q = id_ep e")
  case True
  from playEpisode_update_present [OF True] show ?thesis
    by (auto simp: pointer_ok_def)
next
  case False
  from playEpisode_update_absent [OF False] show ?thesis
    by (simp add: pointer_ok_def)
qed

lemma pointer_ok_addToQueue: "pointer_ok s \<Longrightarrow> pointer_ok (addToQueue_update e s)"
  by (auto simp: pointer_ok_def addToQueue_update_def nth_append split: option.splits)

lemma pointer_ok_removeFromQueue:
  assumes "pointer_ok s" and "0 \<le> i"
  shows "pointer_ok (removeFromQueue_update i s)"
proof (cases "i < int (length (queue s))")
  case False
  then have "filter_index i (queue s) = queue s" by (simp add: filter_index_outside)
  with assms False show ?thesis
    by (auto simp: pointer_ok_def removeFromQueue_update_def Let_def split: option.splits)
next
  case True
  with assms(2) have k: "nat i < length (queue s)" by simp
  from filter_index_inside [OF k] assms(2)
  have f: "filter_index i (queue s) = take (nat i) (queue s) @ drop (Suc (nat i)) (queue s)"
    by simp
  show ?thesis
  proof (cases "currentEpisode s")
    case None
    with assms show ?thesis
      by (simp add: pointer_ok_def removeFromQueue_update_def Let_def)
  next
    case (Some e)
    with assms(1) have c: "0 \<le> currentQueueIndex s"
      "currentQueueIndex s < int (length (queue s))"
      "id_ep (queue s ! nat (currentQueueIndex s)) = id_ep e"
      by (simp_all add: pointer_ok_def)
    consider "i < currentQueueIndex s" | "i = currentQueueIndex s" | "currentQueueIndex s < i"
      by linarith
    then show ?thesis
    proof cases
      case 1
      with assms(2) c have "nat i < nat (currentQueueIndex s)"
        "nat (currentQueueIndex s) < length (queue s)"
        "nat (currentQueueIndex s - 1) = nat (currentQueueIndex s) - 1"
        by simp_all
      with nth_remove_before [of "nat i" "nat (currentQueueIndex s)" "queue s"]
      have "(take (nat i) (queue s) @ drop (Suc (nat i)) (queue s)) ! nat (currentQueueIndex s - 1)
          = queue s ! nat (currentQueueIndex s)"
        by simp
      with 1 c Some assms(2) True show ?thesis
        by (simp add: pointer_ok_def removeFromQueue_update_def Let_def f)
    next
      case 2
      then show ?thesis by (simp add: pointer_ok_def removeFromQueue_update_def Let_def)
    next
      case 3
      with c have "nat (currentQueueIndex s) < nat i"
        "nat (currentQueueIndex s) < length (queue s)"
        by simp_all
      then have "(take (nat i) (queue s) @ drop (Suc (nat i)) (queue s)) ! nat (currentQueueIndex s)
          = queue s ! nat (currentQueueIndex s)"
        by (rule nth_remove_after)
      with 3 c Some True show ?thesis
        by (simp add: pointer_ok_def removeFromQueue_update_def Let_def f)
    qed
  qed
qed

lemma pointer_ok_perform:
  assumes "pointer_ok (state p)" and "nonnegative_index a"
  shows "\<exists>p'. perform opts a p = Inr p' \<and> pointer_ok (state p')"
proof (cases a)
  case (PlayEpisode e)
  then show ?thesis by (simp add: state_playEpisode pointer_ok_playEpisode)
next
  case (AddToQueue e)
  with assms show ?thesis by (simp add: addToQueue_def pointer_ok_addToQueue)
next
  case (RemoveFromQueue i)
  with assms show ?thesis by (simp add: state_removeFromQueue pointer_ok_removeFromQueue)
next
  case PlayNext
  from assms(1) have "- 1 \<le> currentQueueIndex (state p)"
    by (auto simp: pointer_ok_def split: option.splits)
  with PlayNext assms(1) show ?thesis
    by (simp add: playNext_def playNext_from_def at_index_def Let_def
        state_playEpisode pointer_ok_playEpisode)
next
  case PlayPrevious
  from assms(1) have "currentQueueIndex (state p) < int (length (queue (state p)))
      \<or> currentQueueIndex (state p) = - 1"
    by (auto simp: pointer_ok_def split: option.splits)
  with PlayPrevious assms(1) show ?thesis
    by (auto simp: playPrevious_def at_index_def Let_def state_playEpisode pointer_ok_playEpisode)
next
  case TogglePlayPause
  with assms show ?thesis
    by (auto simp: togglePlayPause_def pointer_ok_def split: option.splits)
next
  case ClearQueue
  then show ?thesis by (simp add: clearQueue_def clearQueue_update_def pointer_ok_def)
qed

lemma pointer_ok_perform_all:
  "pointer_ok (state p) \<Longrightarrow> \<forall>a \<in> set as. nonnegative_index a \<Longrightarrow>
   \<exists>p'. perform_all opts as p = Inr p' \<and> pointer_ok (state p')"
proof (induction as arbitrary: p)
  case Nil
  then show ?case by simp
next
  case (Cons a as)
  from pointer_ok_perform [OF Cons.prems(1), of a opts] Cons.prems(2)
  obtain p1 where p1: "perform opts a p = Inr p1" "pointer_ok (state p1)" by auto
  from Cons.IH [OF p1(2)] Cons.prems(2) p1(1) show ?case by simp
qed

text \<open>Every sequence of operations that never passes a negative index to
  \<open>removeFromQueue\<close> runs without error from the initial state and ends in a state that
  satisfies the queue invariant.\<close>

lemma queue_invariant_nonnegative_indices:
  assumes "\<forall>a \<in> set as. nonnegative_index a"
  shows "\<exists>p'. perform_all opts as (initial_player el) = Inr p' \<and> queue_invariant (state p')"
proof -
  have "pointer_ok (state (initial_player el))"
    by (simp add: initial_player_def pointer_ok_initial)
  from pointer_ok_perform_all [OF this assms] show ?thesis
    by (blast intro: pointer_ok_invariant)
qed

text \<open>
  C1. The queue invariant is to hold in every state reached from the initial state by
  engine operations. \<open>removeFromQueue\<close> with a negative index breaks it: after
  \<open>playEpisode a\<close>, \<open>removeFromQueue (-1)\<close> leaves \<open>a\<close> as the current episode with the
  pointer \<open>-1\<close>, which names no queue slot; and on the initial state \<open>removeFromQueue (-5)\<close>
  leaves the empty queue with the pointer \<open>-2\<close>.
\<close>

theorem queue_invariant_broken_by_negative_index:
  "(case perform_all example_options [PlayEpisode episode_a, RemoveFromQueue (- 1)]
           (initial_player None) of
      Inl err \<Rightarrow> False
    | Inr p \<Rightarrow> currentEpisode (state p) = Some episode_a \<and> currentQueueIndex (state p) = - 1
        \<and> at_index (queue (state p)) (currentQueueIndex (state p)) = None
        \<and> \<not> queue_invariant (state p))
   \<and> (case perform_all example_options [RemoveFromQueue (- 5)] (initial_player None) of
      Inl err \<Rightarrow> False
    | Inr p \<Rightarrow> queue (state p) = [] \<and> currentQueueIndex (state p) = - 2
        \<and> \<not> queue_invariant (state p))"
  by (simp add: state_playEpisode state_removeFromQueue playEpisode_update_def
      removeFromQueue_update_def initial_player_def initial_state_def queue_invariant_def
      at_index_def findIndex_def filter_index_def Let_def)

section \<open>skipTime\<close>

text \<open>
  C3, as the code has it. With an element bound and a known duration (neither 0 nor
  \<open>NaN\<close>), \<open>skipTime amount\<close> sets the position, in the state and on the element, to
  \<open>max(0, min(duration, audio.currentTime + amount))\<close>, which lies in \<open>[0, duration]\<close> for
  finite arguments and a positive duration; with no element bound or an unknown duration
  \<open>skipTime\<close> changes nothing. With duration 180, from 170 \<open>skipTime 30\<close> gives 180 and
  from 10 \<open>skipTime (-30)\<close> gives 0.
\<close>

theorem skipTime_guarded_clamp:
  "(audioRef p = Some audio \<and> truthy (duration (state p)) \<longrightarrow>
      state (skipTime amount p) =
        (state p)\<lparr>currentTime := Math_max (Finite 0)
            (Math_min (duration (state p)) (js_add (audio_currentTime audio) amount))\<rparr>
      \<and> audioRef (skipTime amount p) =
        Some (audio\<lparr>audio_currentTime := Math_max (Finite 0)
            (Math_min (duration (state p)) (js_add (audio_currentTime audio) amount))\<rparr>))
   \<and> (audioRef p = None \<or> \<not> truthy (duration (state p)) \<longrightarrow> skipTime amount p = p)
   \<and> (audioRef p = Some audio \<and> duration (state p) = Finite d \<and> 0 < d
        \<and> audio_currentTime audio = Finite c \<and> amount = Finite a \<longrightarrow>
        (\<exists>t. currentTime (state (skipTime amount p)) = Finite t \<and> 0 \<le> t \<and> t \<le> d))
   \<and> (audioRef p = Some audio \<and> duration (state p) = Finite 180
        \<and> audio_currentTime audio = Finite 170 \<longrightarrow>
        currentTime (state (skipTime (Finite 30) p)) = Finite 180)
   \<and> (audioRef p = Some audio \<and> duration (state p) = Finite 180
        \<and> audio_currentTime audio = Finite 10 \<longrightarrow>
        currentTime (state (skipTime (Finite (- 30)) p)) = Finite 0)"
  by (auto simp: skipTime_def seek_def truthy_def Let_def split: option.splits)

text \<open>An element that reported a duration of 180, at positions 170 and 10; and a player
  with no element.\<close>

theorem skipTime_guarded_clamp_witness:
  "currentTime (state (skipTime (Finite 30)
      (seek (Finite 170) (handleLoadedMetadata (initial_player (Some example_element)))))) = Finite 180
   \<and> currentTime (state (skipTime (Finite (- 30))
      (seek (Finite 10) (handleLoadedMetadata (initial_player (Some example_element)))))) = Finite 0
   \<and> skipTime (Finite 30) (initial_player None) = initial_player None"
proof -
  let ?p = "\<lambda>t. seek (Finite t) (handleLoadedMetadata (initial_player (Some example_element)))"
  have facts: "audioRef (?p t) = Some (example_element\<lparr>audio_currentTime := Finite t\<rparr>)"
    "duration (state (?p t)) = Finite 180" for t
    by (simp_all add: seek_def handleLoadedMetadata_def initial_player_def initial_state_def
        example_element_def)
  from skipTime_guarded_clamp [of "?p 170" "example_element\<lparr>audio_currentTime := Finite 170\<rparr>"]
  have a: "currentTime (state (skipTime (Finite 30) (?p 170))) = Finite 180"
    by (simp add: facts)
  from skipTime_guarded_clamp [of "?p 10" "example_element\<lparr>audio_currentTime := Finite 10\<rparr>"]
  have b: "currentTime (state (skipTime (Finite (- 30)) (?p 10))) = Finite 0"
    by (simp add: facts)
  from skipTime_guarded_clamp [of "initial_player None" _ "Finite 30"]
  have c: "skipTime (Finite 30) (initial_player None) = initial_player None"
    by (simp add: initial_player_def)
  from a b c show ?thesis by simp
qed

text \<open>
  C3 as stated fails where the duration is unknown. Before the element has reported its
  metadata the state's duration is 0; at position 10 the stated rule (only the lower bound)
  gives 40 for \<open>skipTime 30\<close>, and the code leaves the position at 10.
\<close>

theorem skipTime_unknown_duration_counterexample:
  "currentTime (state (skipTime (Finite 30)
        (seek (Finite 10) (initial_player (Some example_element))))) \<noteq>
     skipTime_spec
       (currentTime (state (seek (Finite 10) (initial_player (Some example_element)))))
       (Finite 30)
       (duration (state (seek (Finite 10) (initial_player (Some example_element)))))
   \<and> duration (state (seek (Finite 10) (initial_player (Some example_element)))) = Finite 0
   \<and> currentTime (state (seek (Finite 10) (initial_player (Some example_element)))) = Finite 10
   \<and> currentTime (state (skipTime (Finite 30)
        (seek (Finite 10) (initial_player (Some example_element))))) = Finite 10
   \<and> skipTime_spec (Finite 10) (Finite 30) (Finite 0) = Finite 40"
  by (simp add: skipTime_def skipTime_spec_def seek_def truthy_def initial_player_def
      initial_state_def)

section \<open>Rejected play requests\<close>

lemma loadedmetadata_once_bound:
  "audioRef p \<noteq> None \<Longrightarrow> audioRef (loadedmetadata_once r e progress p) \<noteq> None"
  by (auto simp: loadedmetadata_once_def play_catch_def catch_rejection_def
      split: option.splits play_result.splits)

lemma loadedmetadata_once_rejected:
  "audioRef p \<noteq> None \<Longrightarrow> \<not> isPlaying (state (loadedmetadata_once Rejected e progress p))"
  by (auto simp: loadedmetadata_once_def play_catch_def catch_rejection_def split: option.splits)

lemma listeners_keep_bound:
  "audioRef p \<noteq> None \<Longrightarrow> audioRef (foldl (run_loadedmetadata_listener r) p ls) \<noteq> None"
proof (induction ls arbitrary: p)
  case Nil
  then show ?case by simp
next
  case (Cons l ls)
  have "audioRef (run_loadedmetadata_listener r p l) \<noteq> None"
    using Cons.prems by (cases l) (simp_all add: loadedmetadata_once_bound)
  from Cons.IH [OF this] show ?case by simp
qed

lemma fire_after_playEpisode:
  assumes "audioRef p \<noteq> None"
  shows "\<not> isPlaying (state (fire_loadedmetadata Rejected (playEpisode opts e p)))"
proof -
  from assms obtain audio where a: "audioRef p = Some audio" by auto
  let ?a' = "rebind opts e audio"
  let ?p' = "playEpisode opts e p"
  have ls: "listeners ?a' = listeners audio @ [LoadedMetadataOnce e (episodeProgress opts), ErrorOnce]"
    by (simp add: rebind_def load_def Let_def)
  have ref: "audioRef ?p' = Some ?a'" using a by (simp add: playEpisode_def)
  let ?p1 = "(handleLoadedMetadata ?p')
      \<lparr>audioRef := Some (?a'\<lparr>listeners := filter is_error_listener (listeners ?a')\<rparr>)\<rparr>"
  let ?mid = "foldl (run_loadedmetadata_listener Rejected) ?p1
      (filter (\<lambda>l. \<not> is_error_listener l) (listeners audio))"
  have "fire_loadedmetadata Rejected ?p' =
      loadedmetadata_once Rejected e (episodeProgress opts) ?mid"
    using ref by (simp add: fire_loadedmetadata_def Let_def ls)
  moreover have "audioRef ?mid \<noteq> None" by (rule listeners_keep_bound) simp
  ultimately show ?thesis by (simp add: loadedmetadata_once_rejected)
qed

text \<open>
  C9. A play request that the platform rejects leaves \<open>isPlaying\<close> false, on both paths
  that issue one. The callback given to \<open>.catch\<close> clears the flag on whatever state it
  runs. On the bind path, the one-shot metadata listener of \<open>playEpisode\<close> issues the
  request whenever an element is bound, and after a rejection the flag is false, also
  when the listener is reached through \<open>playEpisode\<close> followed by the element's
  \<open>loadedmetadata\<close> event. On the reconciliation path the effect issues the request when
  \<open>isPlaying\<close> is set, the source contains the current episode's URL and the element is
  ready; after a rejection the flag is false.
\<close>

theorem play_rejection_clears_isPlaying:
  "\<not> isPlaying (state (catch_rejection p))
   \<and> (audioRef p \<noteq> None \<longrightarrow>
        \<not> isPlaying (state (loadedmetadata_once Rejected e progress p))
        \<and> \<not> isPlaying (state (fire_loadedmetadata Rejected (playEpisode opts e p))))
   \<and> (audioRef p = Some audio \<and> isPlaying (state p) \<and> currentEpisode (state p) = Some ep
        \<and> includes_str (src audio) (audioUrl ep) \<and> 2 \<le> readyState audio \<longrightarrow>
        \<not> isPlaying (state (reconcile_effect Rejected p)))"
proof (intro conjI impI)
  show "\<not> isPlaying (state (catch_rejection p))" by (simp add: catch_rejection_def)
next
  assume "audioRef p \<noteq> None"
  then show "\<not> isPlaying (state (loadedmetadata_once Rejected e progress p))"
    by (rule loadedmetadata_once_rejected)
next
  assume "audioRef p \<noteq> None"
  then show "\<not> isPlaying (state (fire_loadedmetadata Rejected (playEpisode opts e p)))"
    by (rule fire_after_playEpisode)
next
  assume "audioRef p = Some audio \<and> isPlaying (state p) \<and> currentEpisode (state p) = Some ep
        \<and> includes_str (src audio) (audioUrl ep) \<and> 2 \<le> readyState audio"
  then show "\<not> isPlaying (state (reconcile_effect Rejected p))"
    by (simp add: reconcile_effect_def play_catch_def catch_rejection_def Let_def)
qed

text \<open>\<open>playEpisode a\<close> on a bound element, then a rejected request at \<open>loadedmetadata\<close>;
  and a rejected request of the effect on an element that is ready to play \<open>a\<close>.\<close>

theorem play_rejection_clears_isPlaying_witness:
  "isPlaying (state (playEpisode example_options episode_a (initial_player (Some example_element))))
   \<and> \<not> isPlaying (state (fire_loadedmetadata Rejected
        (playEpisode example_options episode_a (initial_player (Some example_element)))))
   \<and> isPlaying (state ready_player)
   \<and> \<not> isPlaying (state (reconcile_effect Rejected ready_player))"
proof -
  have bound: "audioRef (initial_player (Some example_element)) \<noteq> None"
    by (simp add: initial_player_def)
  from play_rejection_clears_isPlaying
    [of "initial_player (Some example_element)" episode_a _ example_options] bound
  have a: "\<not> isPlaying (state (fire_loadedmetadata Rejected
        (playEpisode example_options episode_a (initial_player (Some example_element)))))"
    by simp
  have ready: "audioRef ready_player = Some (example_element\<lparr>src := audioUrl episode_a, readyState := 4\<rparr>)"
    "isPlaying (state ready_player)" "currentEpisode (state ready_player) = Some episode_a"
    by (simp_all add: ready_player_def state_playEpisode playEpisode_update_def Let_def)
  have "includes_str (src (example_element\<lparr>src := audioUrl episode_a, readyState := 4\<rparr>)) (audioUrl episode_a)
      \<and> 2 \<le> readyState (example_element\<lparr>src := audioUrl episode_a, readyState := 4\<rparr>)"
    by (simp add: episode_a_def)
  with play_rejection_clears_isPlaying
    [of ready_player _ _ _ "example_element\<lparr>src := audioUrl episode_a, readyState := 4\<rparr>" episode_a]
    ready
  have b: "\<not> isPlaying (state (reconcile_effect Rejected ready_player))"
    by simp
  have "isPlaying (state (playEpisode example_options episode_a (initial_player (Some example_element))))"
    by (simp add: state_playEpisode playEpisode_update_def Let_def)
  with a b ready(2) show ?thesis by simp
qed

section \<open>The progress debounce\<close>

lemma tick_from_invariant:
  assumes "debounce_invariant opts ep p"
  shows "timeouts (dispatch opts p (now, TimeUpdate v)) =
           (if onTimeProgress opts \<and> id_ep ep \<noteq> []
            then [\<lparr>handle = next_handle p, due = now + 2000, for_episode = id_ep ep, at_time = v\<rparr>]
            else [])"
    and "progress_calls (dispatch opts p (now, TimeUpdate v)) = progress_calls p"
    and "debounce_invariant opts ep (dispatch opts p (now, TimeUpdate v))"
  using assms
  by (auto simp: debounce_invariant_def handleTimeUpdate_def updateTimeProgress_def
      clearTimeout_def setTimeout_def Let_def split: option.splits list.splits)

lemma timers_keep_invariant:
  assumes "debounce_invariant opts ep p"
  shows "debounce_invariant opts ep (dispatch opts p (now, TimersRun))"
  using assms
  by (auto simp: debounce_invariant_def run_timeouts_def split: list.splits)

lemma dispatch_keeps_invariant:
  assumes "debounce_invariant opts ep p"
  shows "debounce_invariant opts ep (dispatch opts p e)"
proof (cases e)
  case (Pair now ev)
  with assms show ?thesis
    by (cases ev) (simp_all only: tick_from_invariant(3) timers_keep_invariant)
qed

lemma run_events_append:
  "run_events opts p (xs @ ys) = run_events opts (run_events opts p xs) ys"
  by (simp add: run_events_def)

lemma run_events_Cons:
  "run_events opts p (x # xs) = run_events opts (dispatch opts p x) xs"
  by (simp add: run_events_def)

lemma run_events_keeps_invariant:
  "debounce_invariant opts ep p \<Longrightarrow> debounce_invariant opts ep (run_events opts p evs)"
proof (induction evs arbitrary: p)
  case Nil
  then show ?case by (simp add: run_events_def)
next
  case (Cons e evs)
  from Cons.IH [OF dispatch_keeps_invariant [OF Cons.prems]] show ?case
    by (simp add: run_events_Cons)
qed

text \<open>While only the timers run: with nothing pending nothing is reported, and a single
  pending timeout is reported once, at the first run at or after its due time.\<close>

lemma quiet_no_timeouts:
  "\<forall>e \<in> set quiet. snd e = TimersRun \<Longrightarrow> timeouts p = [] \<Longrightarrow>
   progress_calls (run_events opts p quiet) = progress_calls p"
proof (induction quiet arbitrary: p)
  case Nil
  then show ?case by (simp add: run_events_def)
next
  case (Cons e quiet)
  obtain now where e: "e = (now, TimersRun)" using Cons.prems(1) by (cases e) auto
  have "timeouts (dispatch opts p e) = []" "progress_calls (dispatch opts p e) = progress_calls p"
    using Cons.prems(2) by (simp_all add: e run_timeouts_def)
  with Cons.IH [of "dispatch opts p e"] Cons.prems(1) show ?case
    by (simp add: run_events_Cons)
qed

lemma quiet_one_timeout:
  "\<forall>e \<in> set quiet. snd e = TimersRun \<Longrightarrow> timeouts p = [x] \<Longrightarrow>
   progress_calls (run_events opts p quiet) =
     progress_calls p @
       (if \<exists>t'. (t', TimersRun) \<in> set quiet \<and> due x \<le> t' then [(for_episode x, at_time x)]
        else [])"
proof (induction quiet arbitrary: p)
  case Nil
  then show ?case by (simp add: run_events_def)
next
  case (Cons e quiet)
  obtain now where e: "e = (now, TimersRun)" using Cons.prems(1) by (cases e) auto
  from Cons.prems(1) have q: "\<forall>e \<in> set quiet. snd e = TimersRun" by simp
  show ?case
  proof (cases "due x \<le> now")
    case True
    then have "timeouts (dispatch opts p e) = []"
      "progress_calls (dispatch opts p e) = progress_calls p @ [(for_episode x, at_time x)]"
      using Cons.prems(2) by (simp_all add: e run_timeouts_def)
    with quiet_no_timeouts [OF q, of "dispatch opts p e" opts]
    have "progress_calls (run_events opts p (e # quiet)) =
            progress_calls p @ [(for_episode x, at_time x)]"
      by (simp add: run_events_Cons)
    moreover have "\<exists>t'. (t', TimersRun) \<in> set (e # quiet) \<and> due x \<le> t'"
      using True e by auto
    ultimately show ?thesis by simp
  next
    case False
    then have d: "timeouts (dispatch opts p e) = [x]"
      "progress_calls (dispatch opts p e) = progress_calls p"
      using Cons.prems(2) by (simp_all add: e run_timeouts_def)
    have "(\<exists>t'. (t', TimersRun) \<in> set (e # quiet) \<and> due x \<le> t') =
          (\<exists>t'. (t', TimersRun) \<in> set quiet \<and> due x \<le> t')"
      using False e by auto
    with Cons.IH [OF q d(1)] d(2) show ?thesis
      by (simp add: run_events_Cons)
  qed
qed

lemma debounce_segment:
  assumes inv: "debounce_invariant opts ep p"
      and quiet: "\<forall>e \<in> set quiet. snd e = TimersRun"
  shows "progress_calls (run_events opts p (pre @ (t, TimeUpdate v) # quiet)) =
           progress_calls (run_events opts p pre) @
             (if onTimeProgress opts \<and> id_ep ep \<noteq> []
                 \<and> (\<exists>t'. (t', TimersRun) \<in> set quiet \<and> t + 2000 \<le> t')
              then [(id_ep ep, v)] else [])"
proof -
  let ?q = "run_events opts p pre"
  let ?x = "\<lparr>handle = next_handle ?q, due = t + 2000, for_episode = id_ep ep, at_time = v\<rparr>"
  have invq: "debounce_invariant opts ep ?q" using inv by (rule run_events_keeps_invariant)
  note tick = tick_from_invariant(1,2) [OF invq, of t v]
  show ?thesis
  proof (cases "onTimeProgress opts \<and> id_ep ep \<noteq> []")
    case True
    with tick have "timeouts (dispatch opts ?q (t, TimeUpdate v)) = [?x]" by simp
    from quiet_one_timeout [OF quiet this, of opts] tick(2) True
    show ?thesis by (simp add: run_events_append run_events_Cons)
  next
    case False
    with tick have "timeouts (dispatch opts ?q (t, TimeUpdate v)) = []" by simp
    from quiet_no_timeouts [OF quiet this, of opts] tick(2) False
    show ?thesis by (auto simp: run_events_append run_events_Cons)
  qed
qed

text \<open>
  C8. Progress reports are debounced on the trailing edge with a quiet period of 2000 ms.
  Events are time-update ticks of a bound element with a current episode, and runs of the
  platform's expired timers; each carries its clock value. Starting with no timeout
  pending and after any such events \<open>pre\<close>:
  a tick at \<open>t\<close> with position \<open>v\<close> that is followed by timer runs only adds at most one
  report, \<open>(episode id, v)\<close>, and adds it exactly when the callback was passed, the id is
  not empty and the timers ran at or after \<open>t + 2000\<close>;
  and when, in time order, another tick follows at \<open>tn < t + 2000\<close> with position \<open>vn\<close>, the
  value \<open>v\<close> of the earlier tick is not reported at all: what is added after \<open>pre\<close> is at
  most the one report of \<open>vn\<close>.
\<close>

theorem progress_debounce_trailing_edge:
  assumes "audioRef p \<noteq> None" and "currentEpisode (state p) = Some ep"
      and "timeouts p = []"
      and "\<forall>e \<in> set quiet. snd e = TimersRun"
      and "\<forall>e \<in> set rest. snd e = TimersRun"
  shows "progress_calls (run_events opts p (pre @ (t, TimeUpdate v) # rest)) =
           progress_calls (run_events opts p pre) @
             (if onTimeProgress opts \<and> id_ep ep \<noteq> []
                 \<and> (\<exists>t'. (t', TimersRun) \<in> set rest \<and> t + 2000 \<le> t')
              then [(id_ep ep, v)] else [])
    \<and> (sorted (map fst ((t, TimeUpdate v) # quiet @ [(tn, TimeUpdate vn)])) \<and> tn < t + 2000 \<longrightarrow>
         progress_calls
           (run_events opts p (pre @ (t, TimeUpdate v) # quiet @ (tn, TimeUpdate vn) # rest)) =
           progress_calls (run_events opts p pre) @
             (if onTimeProgress opts \<and> id_ep ep \<noteq> []
                 \<and> (\<exists>t'. (t', TimersRun) \<in> set rest \<and> tn + 2000 \<le> t')
              then [(id_ep ep, vn)] else []))"
proof (intro conjI impI)
  have inv: "debounce_invariant opts ep p"
    using assms(1-3) by (simp add: debounce_invariant_def)
  show "progress_calls (run_events opts p (pre @ (t, TimeUpdate v) # rest)) =
           progress_calls (run_events opts p pre) @
             (if onTimeProgress opts \<and> id_ep ep \<noteq> []
                 \<and> (\<exists>t'. (t', TimersRun) \<in> set rest \<and> t + 2000 \<le> t')
              then [(id_ep ep, v)] else [])"
    by (rule debounce_segment [OF inv assms(5)])
  assume order: "sorted (map fst ((t, TimeUpdate v) # quiet @ [(tn, TimeUpdate vn)])) \<and> tn < t + 2000"
  then have "\<forall>e \<in> set quiet. fst e \<le> tn" by (auto simp: sorted_append)
  with order have none: "\<not> (\<exists>t'. (t', TimersRun) \<in> set quiet \<and> t + 2000 \<le> t')" by fastforce
  have first: "progress_calls (run_events opts p (pre @ (t, TimeUpdate v) # quiet)) =
      progress_calls (run_events opts p pre)"
    using debounce_segment [OF inv assms(4), of pre t v] none by simp
  have "progress_calls
          (run_events opts p ((pre @ (t, TimeUpdate v) # quiet) @ (tn, TimeUpdate vn) # rest)) =
      progress_calls (run_events opts p (pre @ (t, TimeUpdate v) # quiet)) @
        (if onTimeProgress opts \<and> id_ep ep \<noteq> []
            \<and> (\<exists>t'. (t', TimersRun) \<in> set rest \<and> tn + 2000 \<le> t')
         then [(id_ep ep, vn)] else [])"
    by (rule debounce_segment [OF inv assms(5)])
  with first show "progress_calls
           (run_events opts p (pre @ (t, TimeUpdate v) # quiet @ (tn, TimeUpdate vn) # rest)) =
           progress_calls (run_events opts p pre) @
             (if onTimeProgress opts \<and> id_ep ep \<noteq> []
                 \<and> (\<exists>t'. (t', TimersRun) \<in> set rest \<and> tn + 2000 \<le> t')
              then [(id_ep ep, vn)] else [])"
    by simp
qed

text \<open>While \<open>a\<close> plays on a bound element: a tick at 0 with position 1, the timers at
  1000, a tick at 1500 with position 2, the timers at 3600. Only position 2 is
  reported.\<close>

theorem progress_debounce_trailing_edge_witness:
  "progress_calls (run_events example_options
      (playEpisode example_options episode_a (initial_player (Some example_element)))
      [(0, TimeUpdate (Finite 1)), (1000, TimersRun), (1500, TimeUpdate (Finite 2)),
       (3600, TimersRun)]) = [(''a'', Finite 2)]"
proof -
  let ?p = "playEpisode example_options episode_a (initial_player (Some example_element))"
  have p: "audioRef ?p \<noteq> None" "currentEpisode (state ?p) = Some episode_a" "timeouts ?p = []"
    "progress_calls ?p = []"
    by (simp_all add: playEpisode_def playEpisode_update_def initial_player_def Let_def)
  have q: "\<forall>e \<in> set [(1000::nat, TimersRun)]. snd e = TimersRun"
    "\<forall>e \<in> set [(3600::nat, TimersRun)]. snd e = TimersRun"
    by simp_all
  have o: "onTimeProgress example_options" "id_ep episode_a = ''a''"
    by (simp_all add: example_options_def episode_a_def)
  have e: "run_events example_options ?p [] = ?p" by (simp add: run_events_def)
  from progress_debounce_trailing_edge [OF p(1-3) q, where opts = example_options
      and pre = "[]" and t = 0 and v = "Finite 1" and tn = 1500 and vn = "Finite 2"]
  show ?thesis
    by (simp add: e p(4) o)
qed


end
